theory Spec2Isabelle
  imports Complex_Main
begin

section \<open>Python values, errors and the numerical libraries\<close>

text \<open>
  The module \<^verbatim>\<open>tedopa/tmps.py\<close> evolves a matrix product state in time. It is written
  in Python 3 on top of numpy, scipy and mpnum. Every exception the module can raise is a
  value of \<open>error\<close>, and a function that can raise returns \<open>error + 'a\<close>.
\<close>

datatype error = ValueError | IndexError | ZeroDivisionError | UnboundLocalError | TypeError

text \<open>
  The Hamiltonians reach the module as Python values: either a Python \<^verbatim>\<open>list\<close> or
  something else (a numpy array). \<open>'m\<close> is the type of numpy arrays.
\<close>

datatype 'm pyval = Arr 'm | PyList "'m pyval list"

text \<open>
  The keyword arguments of \<^verbatim>\<open>MPArray.compress\<close>: the module's own
  \<^verbatim>\<open>relerr=1e-20\<close>, or the caller's dictionary \<^verbatim>\<open>**compr\<close>.
\<close>

datatype 'c compr_args = Relerr real | Kwargs 'c

text \<open>
  numpy, scipy and mpnum are not part of the repository. Their operations are the fields
  of a record that every function of the module takes as its first argument: \<open>'m\<close> are
  numpy arrays, \<open>'s\<close> are the values of mpnum's \<^verbatim>\<open>MPArray\<close>. Floating point numbers
  are modelled by the reals (and complex numbers) they stand for.
  \<^item> \<open>np_rows a\<close> is the iteration over the first axis of \<open>a\<close> (so \<^verbatim>\<open>len(a)\<close> is its
    length), \<open>np_stack\<close> the array numpy makes of a list of arrays;
  \<^item> \<open>mp_compress args s\<close> is \<^verbatim>\<open>s.compress(**args)\<close>: the value the object holds
    afterwards (the method works in place) and the overlap it returns;
  \<^item> \<open>mp_div s c\<close> is \<^verbatim>\<open>s / c\<close>, which builds a new array;
  \<^item> \<open>mp_T_conj u\<close> is \<^verbatim>\<open>u.T.conj()\<close>.
\<close>

record ('m, 's, 'c) substrate =
  np_rows :: "'m \<Rightarrow> 'm list"
  np_stack :: "'m list \<Rightarrow> 'm"
  np_kron :: "'m \<Rightarrow> 'm \<Rightarrow> 'm"
  np_identity :: "nat \<Rightarrow> 'm"
  np_add :: "'m \<Rightarrow> 'm \<Rightarrow> 'm"
  np_scale :: "complex \<Rightarrow> 'm \<Rightarrow> 'm"
  np_reshape :: "'m \<Rightarrow> nat list \<Rightarrow> 'm"
  expm :: "'m \<Rightarrow> 'm"
  mp_from_array_global :: "'m \<Rightarrow> nat \<Rightarrow> 's"
  mp_chain :: "'s list \<Rightarrow> 's"
  mp_eye :: "nat \<Rightarrow> nat \<Rightarrow> 's"
  mp_dot :: "'s \<Rightarrow> 's \<Rightarrow> 's"
  mp_compress :: "'c compr_args \<Rightarrow> 's \<Rightarrow> 's \<times> real"
  mp_trace :: "'s \<Rightarrow> complex"
  mp_norm :: "'s \<Rightarrow> real"
  mp_div :: "'s \<Rightarrow> complex \<Rightarrow> 's"
  mp_len :: "'s \<Rightarrow> nat"
  mp_T_conj :: "'s \<Rightarrow> 's"

subsection \<open>Sequencing of computations that can raise\<close>

definition ebind :: "error + 'a \<Rightarrow> ('a \<Rightarrow> error + 'b) \<Rightarrow> error + 'b" where
  "ebind m f = (case m of Inl e \<Rightarrow> Inl e | Inr x \<Rightarrow> f x)"

text \<open>The elements of a list computed from left to right; the first exception wins.\<close>

fun esequence :: "(error + 'a) list \<Rightarrow> error + 'a list" where
  "esequence [] = Inr []"
| "esequence (m # ms) = ebind m (\<lambda>x. ebind (esequence ms) (\<lambda>xs. Inr (x # xs)))"

text \<open>\<^verbatim>\<open>xs[i]\<close> for \<open>i \<ge> 0\<close> and \<^verbatim>\<open>xs[-1]\<close>, which raise out of range.\<close>

definition py_nth :: "'a list \<Rightarrow> nat \<Rightarrow> error + 'a" where
  "py_nth xs i = (if i < length xs then Inr (xs ! i) else Inl IndexError)"

definition py_last :: "'a list \<Rightarrow> error + 'a" where
  "py_last xs = (if xs = [] then Inl IndexError else Inr (last xs))"

text \<open>\<^verbatim>\<open>xs[::2]\<close> and \<^verbatim>\<open>xs[1::2]\<close>.\<close>

fun every_other :: "'a list \<Rightarrow> 'a list" where
  "every_other [] = []"
| "every_other [x] = [x]"
| "every_other (x # y # zs) = x # every_other zs"

definition every_other_from1 :: "'a list \<Rightarrow> 'a list" where
  "every_other_from1 xs = every_other (tl xs)"

text \<open>\<^verbatim>\<open>list(repeat(x, n))\<close>: no element when \<open>n\<close> is negative.\<close>

definition py_repeat :: "'a \<Rightarrow> int \<Rightarrow> 'a list" where
  "py_repeat x n = replicate (nat n) x"

text \<open>\<^verbatim>\<open>len(v)\<close>, the iteration over \<open>v\<close>, and numpy's reading of \<open>v\<close> as an array.\<close>

fun py_len :: "('m, 's, 'c) substrate \<Rightarrow> 'm pyval \<Rightarrow> nat" where
  "py_len sub (PyList xs) = length xs"
| "py_len sub (Arr a) = length (np_rows sub a)"

fun py_items :: "('m, 's, 'c) substrate \<Rightarrow> 'm pyval \<Rightarrow> 'm pyval list" where
  "py_items sub (PyList xs) = xs"
| "py_items sub (Arr a) = map Arr (np_rows sub a)"

fun asarray :: "('m, 's, 'c) substrate \<Rightarrow> 'm pyval \<Rightarrow> 'm" where
  "asarray sub (Arr a) = a"
| "asarray sub (PyList xs) = np_stack sub (map (asarray sub) xs)"

section \<open>The Hamiltonian normalizer\<close>

text \<open>
  \<^verbatim>\<open>_get_h_list(hs, num_sites)\<close>. \<open>hs\<close> is the pair \<^verbatim>\<open>hs[0]\<close>, \<^verbatim>\<open>hs[1]\<close>. The test
  \<^verbatim>\<open>type(hs[0]) is not list\<close> is the case distinction on the first component.
\<close>

definition get_h_list ::
  "('m, 's, 'c) substrate \<Rightarrow> 'm pyval \<times> 'm pyval \<Rightarrow> int \<Rightarrow> error + ('m pyval \<times> 'm pyval)" where
  "get_h_list sub hs num_sites =
     (case fst hs of
        Arr a \<Rightarrow>
          Inr (PyList (py_repeat (fst hs) num_sites), PyList (py_repeat (snd hs) (num_sites - 1)))
      | PyList h0 \<Rightarrow>
          if int (length h0) \<noteq> num_sites \<or> int (py_len sub (snd hs)) \<noteq> num_sites - 1
          then Inl ValueError
          else Inr (fst hs, snd hs))"

section \<open>Compression and normalization\<close>

text \<open>
  An \<^verbatim>\<open>MPArray\<close> is a mutable object. The objects live in a store, a list of their
  values; a reference is a position in it, and a new object goes to the end.
\<close>

type_synonym 's store = "'s list"

definition alloc :: "'s store \<Rightarrow> 's \<Rightarrow> 's store \<times> nat" where
  "alloc h v = (h @ [v], length h)"

text \<open>
  \<^verbatim>\<open>_normalize(state, method)\<close>. Each assignment \<^verbatim>\<open>state = state / ...\<close> builds a new
  array and binds the local name \<^verbatim>\<open>state\<close> to it. The function returns \<^verbatim>\<open>None\<close>: what
  is left of the call is the store.
\<close>

definition normalize_state :: "('m, 's, 'c) substrate \<Rightarrow> 's store \<Rightarrow> nat \<Rightarrow> string \<Rightarrow> 's store" where
  "normalize_state sub h state method =
     (let (h1, state1) =
            (if method = ''pmps''
             then alloc h (mp_div sub (h ! state) (complex_of_real (mp_norm sub (h ! state))))
             else (h, state));
          (h2, state2) =
            (if method = ''mpo''
             then alloc h1 (mp_div sub (h1 ! state1) (mp_trace sub (h1 ! state1)))
             else (h1, state1))
      in h2)"

text \<open>
  \<^verbatim>\<open>_compress(state, method)\<close>: \<^verbatim>\<open>state.compress(relerr=1e-20)\<close> works on the object in
  place (the overlap it returns is dropped), then \<^verbatim>\<open>state = _normalize(state, method)\<close>.
\<close>

definition compress :: "('m, 's, 'c) substrate \<Rightarrow> 's store \<Rightarrow> nat \<Rightarrow> string \<Rightarrow> 's store" where
  "compress sub h state method =
     (let h1 = h[state := fst (mp_compress sub (Relerr (1 / 10 ^ 20)) (h ! state))]
      in normalize_state sub h1 state method)"

text \<open>
  A procedure that works on an object in place, run on an object that was just built and
  that only the local name refers to: the value the object holds afterwards.
\<close>

definition on_new_object :: "('s store \<Rightarrow> nat \<Rightarrow> 's store) \<Rightarrow> 's \<Rightarrow> 's" where
  "on_new_object f v = (let (h, r) = alloc [] v in f h r ! r)"

section \<open>The propagator builder\<close>

text \<open>
  \<^verbatim>\<open>matrix_to_mpo(matrix, shape)\<close>. \<^verbatim>\<open>shape[0]\<close> raises on an empty shape; the entries
  \<^verbatim>\<open>shape[j][i]\<close> are read after the check of the leg counts, so they are in range.
\<close>

definition matrix_to_mpo :: "('m, 's, 'c) substrate \<Rightarrow> 'm \<Rightarrow> nat list list \<Rightarrow> error + 's" where
  "matrix_to_mpo sub matrix shape =
     ebind (py_nth shape 0) (\<lambda>shape0.
       let num_legs = length shape0 in
       if \<not> list_all (\<lambda>s. length s = num_legs) shape then Inl ValueError
       else
         let newShape = concat (map (\<lambda>i. map (\<lambda>j. shape ! j ! i) [0..<length shape]) [0..<num_legs]);
             matrix1 = np_reshape sub matrix newShape;
             mpo = mp_from_array_global sub matrix1 num_legs
         in Inr (on_new_object (\<lambda>h r. compress sub h r ''mpo'') mpo))"

text \<open>
  \<^verbatim>\<open>_get_u_list(h_single, h_adjacent, tau)\<close>. The indices \<open>i\<close> and \<open>i + 1\<close> of
  \<^verbatim>\<open>h_2sites\<close> come from \<^verbatim>\<open>range(0, len(h_single) - 1, 2)\<close> and are in range;
  \<^verbatim>\<open>h_2sites[i]\<close> and \<^verbatim>\<open>h_single[-1]\<close> can raise.
\<close>

definition get_u_list ::
  "('m, 's, 'c) substrate \<Rightarrow> 'm pyval \<Rightarrow> 'm pyval \<Rightarrow> real \<Rightarrow> error + (nat list \<times> 'm list \<times> 'm list)" where
  "get_u_list sub h_single h_adjacent tau =
     (let hs = py_items sub h_single;
          ha = py_items sub h_adjacent;
          dims = map (py_len sub) hs;
          h_2sites =
            map (\<lambda>i. np_add sub
                        (np_kron sub (asarray sub (hs ! i)) (np_identity sub (py_len sub (hs ! (i + 1)))))
                        (np_kron sub (np_identity sub (py_len sub (hs ! i))) (asarray sub (hs ! (i + 1)))))
                (filter even [0..<length hs - 1])
      in ebind
           (esequence
              (map (\<lambda>(i, h). ebind (py_nth h_2sites i) (\<lambda>h2.
                      Inr (expm sub (np_scale sub (- \<i> * complex_of_real tau / 2)
                                       (np_add sub (asarray sub h) h2)))))
                   (enumerate 0 (every_other ha))))
           (\<lambda>u_odd.
              let u_even = map (\<lambda>h. expm sub (np_scale sub (- \<i> * complex_of_real tau) (asarray sub h)))
                               (every_other_from1 ha)
              in if length u_odd = length u_even
                 then ebind (py_last hs) (\<lambda>h_last.
                        Inr (dims,
                             u_odd @ [expm sub (np_scale sub (- \<i> * complex_of_real tau / 2)
                                                  (asarray sub h_last))],
                             u_even))
                 else Inr (dims, u_odd, u_even)))"

text \<open>
  \<^verbatim>\<open>_u_list_to_mpo(dims, u_odd, u_even)\<close>. \<open>last_h\<close> is bound only when the number of
  sites is odd; reading it unbound raises.
\<close>

definition u_list_to_mpo ::
  "('m, 's, 'c) substrate \<Rightarrow> nat list \<Rightarrow> 'm list \<Rightarrow> 'm list \<Rightarrow> error + ('s \<times> 's)" where
  "u_list_to_mpo sub dims u_odd0 u_even =
     ebind (if length dims mod 2 = 1
            then ebind (py_last u_odd0) (\<lambda>l. Inr (Some l, butlast u_odd0))
            else Inr (None, u_odd0))
       (\<lambda>(last_h, u_odd).
     ebind (esequence
              (map (\<lambda>(i, u). ebind (py_nth dims (2 * i)) (\<lambda>a. ebind (py_nth dims (2 * i + 1)) (\<lambda>b.
                      matrix_to_mpo sub u [[a, a], [b, b]])))
                   (enumerate 0 u_odd)))
       (\<lambda>odd_parts.
     ebind (esequence
              (map (\<lambda>(i, u). ebind (py_nth dims (2 * i + 1)) (\<lambda>a. ebind (py_nth dims (2 * i + 2)) (\<lambda>b.
                      matrix_to_mpo sub u [[a, a], [b, b]])))
                   (enumerate 0 u_even)))
       (\<lambda>even_parts.
     ebind (py_nth dims 0)
       (\<lambda>d0.
          let odd = mp_chain sub odd_parts;
              even0 = mp_chain sub even_parts;
              even = mp_chain sub [mp_eye sub 1 d0, even0]
          in if length u_odd > length u_even
             then ebind (py_last dims) (\<lambda>dl. Inr (odd, mp_chain sub [even, mp_eye sub 1 dl]))
             else if length u_even = length u_odd
             then (case last_h of
                     None \<Rightarrow> Inl UnboundLocalError
                   | Some lh \<Rightarrow>
                       ebind (py_last dims) (\<lambda>dl. ebind (matrix_to_mpo sub lh [[dl, dl]]) (\<lambda>m.
                         Inr (mp_chain sub [odd, m], even))))
             else Inr (odd, even)))))"

section \<open>The slice composer\<close>

definition trotter_two ::
  "('m, 's, 'c) substrate \<Rightarrow> 'm pyval \<times> 'm pyval \<Rightarrow> real \<Rightarrow> int \<Rightarrow> error + 's" where
  "trotter_two sub hamiltonians tau num_sites =
     ebind (get_h_list sub hamiltonians num_sites) (\<lambda>(h_single, h_adjacent).
     ebind (get_u_list sub h_single h_adjacent tau) (\<lambda>(dims, u_odd0, u_even0).
     ebind (u_list_to_mpo sub dims u_odd0 u_even0) (\<lambda>(u_odd, u_even).
       Inr (mp_dot sub (mp_dot sub u_odd u_even) u_odd))))"

text \<open>\<^verbatim>\<open>4 ** (1 / 3)\<close> is the real power \<open>4 powr (1 / 3)\<close>.\<close>

definition trotter_four ::
  "('m, 's, 'c) substrate \<Rightarrow> 'm pyval \<times> 'm pyval \<Rightarrow> real \<Rightarrow> int \<Rightarrow> error + 's" where
  "trotter_four sub hamiltonians tau num_sites =
     (let taus = [tau / (4 - 4 powr (1 / 3)), tau / (4 - 4 powr (1 / 3)),
                  tau - 4 * tau / (4 - 4 powr (1 / 3))]
      in ebind (get_h_list sub hamiltonians num_sites) (\<lambda>(h_single, h_adjacent).
         ebind (esequence (map (\<lambda>tau'. get_u_list sub h_single h_adjacent tau') taus)) (\<lambda>u_lists.
         ebind (esequence (map (\<lambda>(dims, u_odd, u_even). u_list_to_mpo sub dims u_odd u_even) u_lists))
           (\<lambda>u_mpos.
              let u_parts = map (\<lambda>element. mp_dot sub (mp_dot sub (fst element) (snd element)) (fst element))
                                u_mpos;
                  u0 = mp_dot sub (mp_dot sub (u_parts ! 0) (u_parts ! 1)) (u_parts ! 2);
                  u1 = on_new_object (\<lambda>h r. compress sub h r ''mpo'') u0;
                  u2 = mp_dot sub u1 (u_parts ! 1);
                  u3 = mp_dot sub u2 (u_parts ! 0)
              in Inr u3))))"


section \<open>The evolution driver\<close>


text \<open>
  The caller's list of times is a mutable object. It holds the requested times in seconds
  until \<^verbatim>\<open>_times_to_steps\<close> replaces them by the numbers of steps.
\<close>

datatype times_obj = Secs "real list" | Steps "int list"


text \<open>The local variables of the loop of \<^verbatim>\<open>_time_evolution\<close>.\<close>

record 's loop_vars =
  cur_state :: 's
  accumulated_overlap :: real
  accumulated_trotter_error :: real
  times_list :: "real list"
  states_list :: "'s list"
  compr_errors :: "real list"
  trot_errors :: "real list"

text \<open>
  One pass through the body of \<^verbatim>\<open>for i in range(ts[-1])\<close>. \<^verbatim>\<open>mp.dot\<close> builds a new
  object, \<^verbatim>\<open>_normalize\<close> is called on it, and \<^verbatim>\<open>state.compress(**compr)\<close> works on it in
  place.
\<close>

definition loop_body ::
  "('m, 's, 'c) substrate \<Rightarrow> 's \<Rightarrow> 's \<Rightarrow> int list \<Rightarrow> real \<Rightarrow> string \<Rightarrow> 'c \<Rightarrow> nat \<Rightarrow>
   's loop_vars \<Rightarrow> 's loop_vars" where
  "loop_body sub u u_dagger ts tau method compr i v =
     (let state1 = mp_dot sub u (cur_state v);
          state2 = (if method = ''mpo'' then mp_dot sub state1 u_dagger else state1);
          state3 = on_new_object (\<lambda>h r. normalize_state sub h r method) state2;
          (state4, overlap) = mp_compress sub (Kwargs compr) state3;
          v1 = v\<lparr>cur_state := state4,
                 accumulated_overlap := accumulated_overlap v * overlap,
                 accumulated_trotter_error := accumulated_trotter_error v + tau ^ 3\<rparr>
      in if int i + 1 \<in> set ts
         then v1\<lparr>times_list := times_list v1 @ [tau * real (i + 1)],
                  states_list := states_list v1 @ [cur_state v1],
                  compr_errors := compr_errors v1 @ [accumulated_overlap v1],
                  trot_errors := trot_errors v1 @ [accumulated_trotter_error v1]\<rparr>
         else v1)"

text \<open>The variables after the first \<open>k\<close> passes of the loop, from the variables \<open>v\<close>.\<close>

definition run_loop ::
  "('m, 's, 'c) substrate \<Rightarrow> 's \<Rightarrow> 's \<Rightarrow> int list \<Rightarrow> real \<Rightarrow> string \<Rightarrow> 'c \<Rightarrow> nat \<Rightarrow>
   's loop_vars \<Rightarrow> 's loop_vars" where
  "run_loop sub u u_dagger ts tau method compr k v =
     fold (loop_body sub u u_dagger ts tau method compr) [0..<k] v"

text \<open>
  \<^verbatim>\<open>_time_evolution(state, u, ts, tau, method, compr)\<close>. \<open>u_dagger\<close> is read only where
  the method is \<^verbatim>\<open>'mpo'\<close>, where it is bound. \<^verbatim>\<open>ts[0]\<close> raises on an empty list, and
  \<^verbatim>\<open>range\<close> raises on a float.
\<close>

definition init_vars :: "'s \<Rightarrow> int \<Rightarrow> 's loop_vars" where
  "init_vars state t0 =
     \<lparr>cur_state = state, accumulated_overlap = 1, accumulated_trotter_error = 0,
      times_list = (if t0 = 0 then [0] else []),
      states_list = (if t0 = 0 then [state] else []),
      compr_errors = (if t0 = 0 then [0] else []),
      trot_errors = (if t0 = 0 then [0] else [])\<rparr>"

definition time_evolution ::
  "('m, 's, 'c) substrate \<Rightarrow> 's \<Rightarrow> 's \<Rightarrow> times_obj \<Rightarrow> real \<Rightarrow> string \<Rightarrow> 'c \<Rightarrow>
   error + (real list \<times> 's list \<times> real list \<times> real list)" where
  "time_evolution sub state u ts_obj tau method compr =
     (case ts_obj of
        Secs fs \<Rightarrow> if fs = [] then Inl IndexError else Inl TypeError
      | Steps ts \<Rightarrow>
          ebind (py_nth ts 0) (\<lambda>t0.
          ebind (py_last ts) (\<lambda>t_last.
            let u_dagger = mp_T_conj sub u;
                v = run_loop sub u u_dagger ts tau method compr (nat t_last) (init_vars state t0)
            in Inr (times_list v, states_list v, compr_errors v, trot_errors v))))"


section \<open>A substrate to compute with\<close>

text \<open>
  The libraries restricted to arrays all of whose axes have length one. Such an array is
  its single entry and its number of axes; a chain of sites of dimension one is its number
  of sites and the single entry of the operator it stands for. Compression leaves such a
  chain as it is and reports the overlap one.
\<close>

definition scalar_substrate :: "(complex \<times> nat, nat \<times> complex, unit) substrate" where
  "scalar_substrate =
     \<lparr>np_rows = (\<lambda>a. [(fst a, snd a - 1)]),
      np_stack = (\<lambda>xs. (fst (hd xs), Suc (snd (hd xs)))),
      np_kron = (\<lambda>a b. (fst a * fst b, 2)),
      np_identity = (\<lambda>n. (1, 2)),
      np_add = (\<lambda>a b. (fst a + fst b, snd a)),
      np_scale = (\<lambda>c a. (c * fst a, snd a)),
      np_reshape = (\<lambda>a shape. (fst a, length shape)),
      expm = (\<lambda>a. (exp (fst a), snd a)),
      mp_from_array_global = (\<lambda>a ndims. (snd a div ndims, fst a)),
      mp_chain = (\<lambda>xs. (sum_list (map fst xs), prod_list (map snd xs))),
      mp_eye = (\<lambda>sites ldim. (sites, 1)),
      mp_dot = (\<lambda>a b. (fst a, snd a * snd b)),
      mp_compress = (\<lambda>args s. (s, 1)),
      mp_trace = (\<lambda>s. snd s),
      mp_norm = (\<lambda>s. cmod (snd s)),
      mp_div = (\<lambda>s c. (fst s, snd s / c)),
      mp_len = (\<lambda>s. fst s),
      mp_T_conj = (\<lambda>s. (fst s, cnj (snd s)))\<rparr>"

section \<open>The parts of the result of the propagator builder\<close>

text \<open>
  The lists that \<^verbatim>\<open>_get_u_list\<close> builds, named: the two-site sums \<^verbatim>\<open>h_2sites\<close>, the
  operators on the odd bonds before the test of the lengths, the operators on the even
  bonds, and the operator of the last site alone.
\<close>

definition h_2sites :: "('m, 's, 'c) substrate \<Rightarrow> 'm pyval list \<Rightarrow> 'm list" where
  "h_2sites sub hs =
     map (\<lambda>i. np_add sub
                 (np_kron sub (asarray sub (hs ! i)) (np_identity sub (py_len sub (hs ! (i + 1)))))
                 (np_kron sub (np_identity sub (py_len sub (hs ! i))) (asarray sub (hs ! (i + 1)))))
         (filter even [0..<length hs - 1])"

definition odd_bond_ops ::
  "('m, 's, 'c) substrate \<Rightarrow> 'm pyval list \<Rightarrow> 'm pyval list \<Rightarrow> real \<Rightarrow> 'm list" where
  "odd_bond_ops sub hs ha tau =
     map (\<lambda>(i, h). expm sub (np_scale sub (- \<i> * complex_of_real tau / 2)
                       (np_add sub (asarray sub h) (h_2sites sub hs ! i))))
         (enumerate 0 (every_other ha))"

definition even_bond_ops :: "('m, 's, 'c) substrate \<Rightarrow> 'm pyval list \<Rightarrow> real \<Rightarrow> 'm list" where
  "even_bond_ops sub ha tau =
     map (\<lambda>h. expm sub (np_scale sub (- \<i> * complex_of_real tau) (asarray sub h)))
         (every_other_from1 ha)"

definition last_site_op :: "('m, 's, 'c) substrate \<Rightarrow> 'm pyval list \<Rightarrow> real \<Rightarrow> 'm" where
  "last_site_op sub hs tau =
     expm sub (np_scale sub (- \<i> * complex_of_real tau / 2) (asarray sub (last hs)))"

section \<open>The steps that the loop records\<close>

text \<open>
  The loop of \<^verbatim>\<open>_time_evolution\<close> records after pass \<open>i\<close> when \<^verbatim>\<open>i + 1 in ts\<close>. In
  \<open>k\<close> passes it records at the steps \<open>recorded_steps ts k\<close>; before the loop the lists
  hold the step \<open>0\<close> when \<^verbatim>\<open>ts[0] == 0\<close>.
\<close>

definition recorded_steps :: "int list \<Rightarrow> nat \<Rightarrow> nat list" where
  "recorded_steps ts k = filter (\<lambda>j. int j \<in> set ts) [1..<Suc k]"


section \<open>The networks that the propagator builder returns\<close>

text \<open>
  The values of \<^verbatim>\<open>matrix_to_mpo\<close> on the shapes that \<^verbatim>\<open>_u_list_to_mpo\<close> passes, the
  chains it builds from them, the two networks it returns for a chain with the site
  operators \<open>hs\<close> and the bond operators \<open>ha\<close>, and the slice of order two made of them.
\<close>

definition two_site_mpo :: "('m, 's, 'c) substrate \<Rightarrow> 'm \<Rightarrow> nat \<Rightarrow> nat \<Rightarrow> 's" where
  "two_site_mpo sub u a b =
     on_new_object (\<lambda>h r. compress sub h r ''mpo'')
       (mp_from_array_global sub (np_reshape sub u [a, b, a, b]) 2)"

definition one_site_mpo :: "('m, 's, 'c) substrate \<Rightarrow> 'm \<Rightarrow> nat \<Rightarrow> 's" where
  "one_site_mpo sub u d =
     on_new_object (\<lambda>h r. compress sub h r ''mpo'')
       (mp_from_array_global sub (np_reshape sub u [d, d]) 2)"

definition odd_network :: "('m, 's, 'c) substrate \<Rightarrow> nat list \<Rightarrow> 'm list \<Rightarrow> 's" where
  "odd_network sub dims u_odd =
     mp_chain sub (map (\<lambda>(i, u). two_site_mpo sub u (dims ! (2 * i)) (dims ! (2 * i + 1)))
                       (enumerate 0 u_odd))"

definition even_network :: "('m, 's, 'c) substrate \<Rightarrow> nat list \<Rightarrow> 'm list \<Rightarrow> 's" where
  "even_network sub dims u_even =
     mp_chain sub
       [mp_eye sub 1 (dims ! 0),
        mp_chain sub (map (\<lambda>(i, u). two_site_mpo sub u (dims ! (2 * i + 1)) (dims ! (2 * i + 2)))
                          (enumerate 0 u_even))]"

definition odd_net :: "('m, 's, 'c) substrate \<Rightarrow> 'm pyval list \<Rightarrow> 'm pyval list \<Rightarrow> real \<Rightarrow> 's" where
  "odd_net sub hs ha tau =
     (let dims = map (py_len sub) hs
      in if odd (length hs)
         then mp_chain sub [odd_network sub dims (odd_bond_ops sub hs ha tau),
                            one_site_mpo sub (last_site_op sub hs tau) (last dims)]
         else odd_network sub dims (odd_bond_ops sub hs ha tau))"

definition even_net :: "('m, 's, 'c) substrate \<Rightarrow> 'm pyval list \<Rightarrow> 'm pyval list \<Rightarrow> real \<Rightarrow> 's" where
  "even_net sub hs ha tau =
     (let dims = map (py_len sub) hs
      in if odd (length hs)
         then even_network sub dims (even_bond_ops sub ha tau)
         else mp_chain sub [even_network sub dims (even_bond_ops sub ha tau), mp_eye sub 1 (last dims)])"

definition slice_two :: "('m, 's, 'c) substrate \<Rightarrow> 'm pyval list \<Rightarrow> 'm pyval list \<Rightarrow> real \<Rightarrow> 's" where
  "slice_two sub hs ha tau =
     mp_dot sub (mp_dot sub (odd_net sub hs ha tau) (even_net sub hs ha tau)) (odd_net sub hs ha tau)"

section \<open>The steps of the requested times\<close>


section \<open>Zero Hamiltonians and the identity network\<close>

text \<open>
  The identity network on sites of the dimensions \<open>ds\<close>: the chain of the one-site
  identities.
\<close>

definition id_net :: "('m, 's, 'c) substrate \<Rightarrow> nat list \<Rightarrow> 's" where
  "id_net sub ds = mp_chain sub (map (mp_eye sub 1) ds)"

text \<open>
  The zero Hamiltonians of a chain with the dimensions \<open>ds\<close>, where \<open>zeros d\<close> stands for the
  zero matrix with \<open>d\<close> rows: one for every site, and one for every bond, on the product
  space of its two sites.
\<close>

definition zero_sites :: "(nat \<Rightarrow> 'm) \<Rightarrow> nat list \<Rightarrow> 'm pyval list" where
  "zero_sites zeros ds = map (\<lambda>d. Arr (zeros d)) ds"

definition zero_bonds :: "(nat \<Rightarrow> 'm) \<Rightarrow> nat list \<Rightarrow> 'm pyval list" where
  "zero_bonds zeros ds = map (\<lambda>i. Arr (zeros (ds ! i * ds ! Suc i))) [0..<length ds - 1]"

text \<open>
  What numpy, scipy and mpnum give in exact arithmetic, as far as a chain of zero
  Hamiltonians with the dimensions \<open>ds\<close> needs it. This is a hypothesis on the libraries,
  not a part of the module: a zero matrix has as many rows as its dimension; its Kronecker
  product with an identity, its sum with itself and its multiples are zero; its exponential
  is the identity; the network made of the identity on two sites (or one site) and
  compressed with \<^verbatim>\<open>relerr=1e-20\<close> is the chain of the site identities; a chain of chains
  is the chain of all their parts, and the chain of one network is that network; the
  product of the identity network with itself is the identity network.
\<close>

definition exact_on_zero :: "('m, 's, 'c) substrate \<Rightarrow> (nat \<Rightarrow> 'm) \<Rightarrow> nat list \<Rightarrow> bool" where
  "exact_on_zero sub zeros ds \<longleftrightarrow>
     (\<forall>d\<in>set ds. length (np_rows sub (zeros d)) = d) \<and>
     (\<forall>a\<in>set ds. \<forall>b\<in>set ds.
        np_kron sub (zeros a) (np_identity sub b) = zeros (a * b) \<and>
        np_kron sub (np_identity sub a) (zeros b) = zeros (a * b)) \<and>
     (\<forall>d. np_add sub (zeros d) (zeros d) = zeros d) \<and>
     (\<forall>c d. np_scale sub c (zeros d) = zeros d) \<and>
     (\<forall>d. expm sub (zeros d) = np_identity sub d) \<and>
     (\<forall>a\<in>set ds. \<forall>b\<in>set ds.
        fst (mp_compress sub (Relerr (1 / 10 ^ 20))
               (mp_from_array_global sub (np_reshape sub (np_identity sub (a * b)) [a, b, a, b]) 2)) =
        mp_chain sub [mp_eye sub 1 a, mp_eye sub 1 b]) \<and>
     (\<forall>d\<in>set ds.
        fst (mp_compress sub (Relerr (1 / 10 ^ 20))
               (mp_from_array_global sub (np_reshape sub (np_identity sub d) [d, d]) 2)) =
        mp_eye sub 1 d) \<and>
     (\<forall>xss. xss \<noteq> [] \<and> (\<forall>xs\<in>set xss. xs \<noteq> []) \<longrightarrow>
        mp_chain sub (map (mp_chain sub) xss) = mp_chain sub (concat xss)) \<and>
     (\<forall>x. mp_chain sub [x] = x) \<and>
     mp_dot sub (id_net sub ds) (id_net sub ds) = id_net sub ds"

section \<open>Basic facts\<close>

lemma ebind_Inr [simp]: "ebind (Inr x) f = f x"
  by (simp add: ebind_def)

lemma ebind_Inl [simp]: "ebind (Inl e) f = Inl e"
  by (simp add: ebind_def)

lemma esequence_all_Inr:
  "(\<And>x. x \<in> set xs \<Longrightarrow> f x = Inr (g x)) \<Longrightarrow> esequence (map f xs) = Inr (map g xs)"
  by (induction xs) simp_all

lemma length_every_other: "length (every_other xs) = (length xs + 1) div 2"
  by (induction xs rule: every_other.induct) simp_all

lemma length_every_other_from1: "length (every_other_from1 xs) = length xs div 2"
  by (cases xs) (simp_all add: every_other_from1_def length_every_other)

lemma length_filter_even_upt: "length (filter even [0..<n]) = (n + 1) div 2"
  by (induction n) auto

lemma length_h_2sites: "length (h_2sites sub hs) = length hs div 2"
  by (cases hs) (simp_all add: h_2sites_def length_filter_even_upt)

text \<open>The fields of the substrate to compute with.\<close>

lemma scalar_fields:
  "np_rows scalar_substrate a = [(fst a, snd a - 1)]"
  "np_stack scalar_substrate xs = (fst (hd xs), Suc (snd (hd xs)))"
  "np_kron scalar_substrate a b = (fst a * fst b, 2)"
  "np_identity scalar_substrate n = (1, 2)"
  "np_add scalar_substrate a b = (fst a + fst b, snd a)"
  "np_scale scalar_substrate c a = (c * fst a, snd a)"
  "np_reshape scalar_substrate a shape = (fst a, length shape)"
  "expm scalar_substrate a = (exp (fst a), snd a)"
  "mp_from_array_global scalar_substrate a ndims = (snd a div ndims, fst a)"
  "mp_chain scalar_substrate ss = (sum_list (map fst ss), prod_list (map snd ss))"
  "mp_eye scalar_substrate sites ldim = (sites, 1)"
  "mp_dot scalar_substrate s t = (fst s, snd s * snd t)"
  "mp_compress scalar_substrate args s = (s, 1)"
  "mp_trace scalar_substrate s = snd s"
  "mp_norm scalar_substrate s = cmod (snd s)"
  "mp_div scalar_substrate s c = (fst s, snd s / c)"
  "mp_len scalar_substrate s = fst s"
  "mp_T_conj scalar_substrate s = (fst s, cnj (snd s))"
  by (simp_all add: scalar_substrate_def)

section \<open>The Hamiltonian normalizer decides by the type of the first element\<close>

text \<open>
  C10. \<^verbatim>\<open>_get_h_list\<close> looks only at whether \<^verbatim>\<open>hs[0]\<close> is a Python list. When it is not
  (a numpy array \<open>Arr a\<close>), the result is \<open>num_sites\<close> copies of \<^verbatim>\<open>hs[0]\<close> and
  \<open>num_sites - 1\<close> copies of \<^verbatim>\<open>hs[1]\<close>, whatever \<^verbatim>\<open>hs[1]\<close> is, and no length is
  checked. When it is a Python list, the lengths \<open>num_sites\<close> and \<open>num_sites - 1\<close> are
  checked and a mismatch is a \<^verbatim>\<open>ValueError\<close>.
\<close>

theorem get_h_list_by_type_of_first:
  "get_h_list sub (Arr a, y) n =
     Inr (PyList (replicate (nat n) (Arr a)), PyList (replicate (nat (n - 1)) y)) \<and>
   get_h_list sub (PyList xs, y) n =
     (if int (length xs) = n \<and> int (py_len sub y) = n - 1 then Inr (PyList xs, y)
      else Inl ValueError)"
  by (simp add: get_h_list_def py_repeat_def)

theorem get_h_list_by_type_of_first_witness:
  "get_h_list scalar_substrate (Arr (5, 2), PyList []) 3 =
     Inr (PyList [Arr (5, 2), Arr (5, 2), Arr (5, 2)], PyList [PyList [], PyList []]) \<and>
   get_h_list scalar_substrate (PyList [Arr (5, 2), Arr (5, 2), Arr (5, 2)], PyList []) 3 =
     Inl ValueError \<and>
   get_h_list scalar_substrate
       (PyList [Arr (5, 2), Arr (5, 2), Arr (5, 2)], PyList [Arr (7, 2), Arr (7, 2)]) 3 =
     Inr (PyList [Arr (5, 2), Arr (5, 2), Arr (5, 2)], PyList [Arr (7, 2), Arr (7, 2)])"
  using get_h_list_by_type_of_first [of scalar_substrate "(5, 2)" "PyList []" 3
      "[Arr (5, 2), Arr (5, 2), Arr (5, 2)]"]
    get_h_list_by_type_of_first [of scalar_substrate "(5, 2)" "PyList [Arr (7, 2), Arr (7, 2)]" 3
      "[Arr (5, 2), Arr (5, 2), Arr (5, 2)]"]
  by (simp add: numeral_2_eq_2 numeral_3_eq_3)

section \<open>The operator of the last site\<close>

lemma odd_bond_ops_seq:
  assumes "length (every_other ha) \<le> length (h_2sites sub hs)"
  shows "esequence
       (map (\<lambda>(i, h). ebind (py_nth (h_2sites sub hs) i) (\<lambda>h2.
               Inr (expm sub (np_scale sub (- \<i> * complex_of_real tau / 2)
                                (np_add sub (asarray sub h) h2)))))
            (enumerate 0 (every_other ha)))
     = Inr (odd_bond_ops sub hs ha tau)"
  unfolding odd_bond_ops_def
proof (rule esequence_all_Inr)
  fix x assume "x \<in> set (enumerate 0 (every_other ha))"
  then have "fst x < length (h_2sites sub hs)"
    using assms by (auto simp: in_set_enumerate_eq)
  then show "(case x of (i, h) \<Rightarrow> ebind (py_nth (h_2sites sub hs) i) (\<lambda>h2.
             Inr (expm sub (np_scale sub (- \<i> * complex_of_real tau / 2)
                              (np_add sub (asarray sub h) h2)))))
      = Inr (case x of (i, h) \<Rightarrow> expm sub (np_scale sub (- \<i> * complex_of_real tau / 2)
                     (np_add sub (asarray sub h) (h_2sites sub hs ! i))))"
    by (cases x) (simp add: py_nth_def)
qed

lemma get_u_list_unfold:
  "get_u_list sub h_single h_adjacent tau =
     ebind (esequence
       (map (\<lambda>(i, h). ebind (py_nth (h_2sites sub (py_items sub h_single)) i) (\<lambda>h2.
               Inr (expm sub (np_scale sub (- \<i> * complex_of_real tau / 2)
                                (np_add sub (asarray sub h) h2)))))
            (enumerate 0 (every_other (py_items sub h_adjacent)))))
       (\<lambda>u_odd. if length u_odd = length (even_bond_ops sub (py_items sub h_adjacent) tau)
          then ebind (py_last (py_items sub h_single)) (\<lambda>h_last.
                 Inr (map (py_len sub) (py_items sub h_single),
                      u_odd @ [expm sub (np_scale sub (- \<i> * complex_of_real tau / 2)
                                           (asarray sub h_last))],
                      even_bond_ops sub (py_items sub h_adjacent) tau))
          else Inr (map (py_len sub) (py_items sub h_single), u_odd,
                    even_bond_ops sub (py_items sub h_adjacent) tau))"
  unfolding get_u_list_def h_2sites_def even_bond_ops_def Let_def ..

lemma block_counts:
  assumes "length ha + 1 = length hs"
  shows "length (odd_bond_ops sub hs ha tau) = length hs div 2"
    and "length (even_bond_ops sub ha tau) = (length hs - 1) div 2"
    and "length (odd_bond_ops sub hs ha tau) = length (even_bond_ops sub ha tau)
           \<longleftrightarrow> odd (length hs)"
proof -
  show a: "length (odd_bond_ops sub hs ha tau) = length hs div 2"
    using assms by (simp add: odd_bond_ops_def length_every_other)
  show b: "length (even_bond_ops sub ha tau) = (length hs - 1) div 2"
    using assms by (simp add: even_bond_ops_def length_every_other_from1)
  show "length (odd_bond_ops sub hs ha tau) = length (even_bond_ops sub ha tau)
          \<longleftrightarrow> odd (length hs)"
    unfolding a b using assms by presburger
qed

lemma get_u_list_chain:
  assumes "length (py_items sub h_adjacent) + 1 = length (py_items sub h_single)"
  shows "get_u_list sub h_single h_adjacent tau =
           Inr (map (py_len sub) (py_items sub h_single),
                odd_bond_ops sub (py_items sub h_single) (py_items sub h_adjacent) tau @
                  (if odd (length (py_items sub h_single))
                   then [last_site_op sub (py_items sub h_single) tau] else []),
                even_bond_ops sub (py_items sub h_adjacent) tau)"
proof -
  have len: "length (every_other (py_items sub h_adjacent))
               \<le> length (h_2sites sub (py_items sub h_single))"
    using assms by (simp add: length_every_other length_h_2sites)
  have ne: "py_items sub h_single \<noteq> []" using assms by auto
  show ?thesis
    by (simp only: get_u_list_unfold odd_bond_ops_seq[OF len] ebind_Inr
        block_counts(3)[OF assms])
       (simp add: py_last_def ne last_site_op_def)
qed

text \<open>
  C3, as the code has it. For a chain of \<open>N \<ge> 1\<close> sites with its \<open>N - 1\<close> bonds,
  \<^verbatim>\<open>_get_u_list\<close> appends the operator \<open>exp(-i (tau/2) h)\<close> of the last site to the
  operators of the odd bonds if and only if there are as many odd-bond operators as
  even-bond operators, and that is the case exactly when the number of sites is odd.
\<close>

theorem get_u_list_last_site_op:
  assumes "length ha + 1 = length hs"
  shows "get_u_list sub (PyList hs) (PyList ha) tau =
           Inr (map (py_len sub) hs,
                odd_bond_ops sub hs ha tau @
                  (if length (odd_bond_ops sub hs ha tau) = length (even_bond_ops sub ha tau)
                   then [last_site_op sub hs tau] else []),
                even_bond_ops sub ha tau) \<and>
         (length (odd_bond_ops sub hs ha tau) = length (even_bond_ops sub ha tau)
            \<longleftrightarrow> odd (length hs))"
proof -
  have a: "length (py_items sub (PyList ha)) + 1 = length (py_items sub (PyList hs))"
    using assms by simp
  show ?thesis
    using get_u_list_chain [OF a, of tau] block_counts(3) [OF assms, of sub tau] by simp
qed

lemmas builder_eval = scalar_fields odd_bond_ops_def even_bond_ops_def last_site_op_def
  h_2sites_def enumerate_eq_zip upt_conv_Cons every_other_from1_def

theorem get_u_list_last_site_op_witness:
  "length [Arr (10, 2), Arr (20, 2)] + 1 = length [Arr (1, 2), Arr (2, 2), Arr (3, 2)] \<and>
   get_u_list scalar_substrate (PyList [Arr (1, 2), Arr (2, 2), Arr (3, 2)])
       (PyList [Arr (10, 2), Arr (20, 2)]) 1 =
     Inr ([1, 1, 1],
          [(exp (- \<i> * 13 / 2), 2), (exp (- \<i> * 3 / 2), 2)],
          [(exp (- \<i> * 20), 2)]) \<and>
   odd (length [Arr (1, 2), Arr (2, 2), Arr (3 :: complex, 2 :: nat)])"
  using get_u_list_last_site_op
    [of "[Arr (10, 2), Arr (20, 2)]" "[Arr (1, 2), Arr (2, 2), Arr (3, 2)]" scalar_substrate 1]
  by (simp add: builder_eval)

text \<open>
  The claim as the specification words it fails on a chain of four sites: the number of
  sites is even, there are two odd-bond operators and one even-bond operator, and no
  operator of the last site is appended.
\<close>

theorem get_u_list_even_chain_counterexample:
  "even (length [Arr (1, 2), Arr (2, 2), Arr (3, 2), Arr (4 :: complex, 2 :: nat)]) \<and>
   get_u_list scalar_substrate (PyList [Arr (1, 2), Arr (2, 2), Arr (3, 2), Arr (4, 2)])
       (PyList [Arr (10, 2), Arr (20, 2), Arr (30, 2)]) 1 =
     Inr ([1, 1, 1, 1],
          [(exp (- \<i> * 13 / 2), 2), (exp (- \<i> * 37 / 2), 2)],
          [(exp (- \<i> * 20), 2)]) \<and>
   odd_bond_ops scalar_substrate [Arr (1, 2), Arr (2, 2), Arr (3, 2), Arr (4, 2)]
       [Arr (10, 2), Arr (20, 2), Arr (30, 2)] 1 =
     [(exp (- \<i> * 13 / 2), 2), (exp (- \<i> * 37 / 2), 2)] \<and>
   even_bond_ops scalar_substrate [Arr (10, 2), Arr (20, 2), Arr (30, 2)] 1 =
     [(exp (- \<i> * 20), 2)]"
  by (simp add: get_u_list_def Let_def py_nth_def py_last_def builder_eval)

section \<open>The loop of the evolution driver\<close>

lemma run_loop_0 [simp]: "run_loop sub u ud ts tau method compr 0 v = v"
  by (simp add: run_loop_def)

lemma run_loop_Suc:
  "run_loop sub u ud ts tau method compr (Suc k) v =
     loop_body sub u ud ts tau method compr k (run_loop sub u ud ts tau method compr k v)"
  by (simp add: run_loop_def)

lemma recorded_steps_0 [simp]: "recorded_steps ts 0 = []"
  by (simp add: recorded_steps_def)


text \<open>\<^verbatim>\<open>_normalize\<close> leaves every object of the store as it was.\<close>

lemma normalize_state_keeps: "r < length h \<Longrightarrow> normalize_state sub h state method ! r = h ! r"
  by (simp add: normalize_state_def alloc_def Let_def nth_append)

lemma on_new_object_normalize_state [simp]: "on_new_object (\<lambda>h r. normalize_state sub h r method) v = v"
  by (simp add: on_new_object_def alloc_def normalize_state_keeps)







text \<open>One pass of the loop and a whole evolution on the substrate to compute with.\<close>

lemma scalar_loop_body:
  "loop_body scalar_substrate u ud ts tau method () i v =
     (let s = (if method = ''mpo'' then (fst u, snd u * snd (cur_state v) * snd ud)
               else (fst u, snd u * snd (cur_state v)));
          v1 = v\<lparr>cur_state := s, accumulated_trotter_error := accumulated_trotter_error v + tau ^ 3\<rparr>
      in if int i + 1 \<in> set ts
         then v1\<lparr>times_list := times_list v @ [tau * real (i + 1)],
                  states_list := states_list v @ [s],
                  compr_errors := compr_errors v @ [accumulated_overlap v],
                  trot_errors := trot_errors v @ [accumulated_trotter_error v + tau ^ 3]\<rparr>
         else v1)"
  by (simp add: loop_body_def scalar_fields Let_def)


section \<open>The accumulated Trotter error\<close>



section \<open>Rounding, sorting and the conversion of times to steps\<close>







lemma sort_eq_Nil [simp]: "sort xs = [] \<longleftrightarrow> xs = []"
  using length_sort [of "\<lambda>x. x" xs] by (metis length_0_conv)





section \<open>The propagator builder returns\<close>

lemma upt_0_2: "[0..<2] = [0, Suc 0]"
  by (simp add: upt_conv_Cons)

lemma matrix_to_mpo_two: "matrix_to_mpo sub u [[a, a], [b, b]] = Inr (two_site_mpo sub u a b)"
  by (simp add: matrix_to_mpo_def py_nth_def two_site_mpo_def Let_def upt_0_2 numeral_2_eq_2)

lemma matrix_to_mpo_one: "matrix_to_mpo sub u [[d, d]] = Inr (one_site_mpo sub u d)"
  by (simp add: matrix_to_mpo_def py_nth_def one_site_mpo_def Let_def upt_0_2 numeral_2_eq_2)

lemma odd_parts_seq:
  assumes "2 * length us \<le> length dims"
  shows "esequence
           (map (\<lambda>(i, u). ebind (py_nth dims (2 * i)) (\<lambda>a. ebind (py_nth dims (2 * i + 1)) (\<lambda>b.
                    matrix_to_mpo sub u [[a, a], [b, b]])))
                (enumerate 0 us)) =
         Inr (map (\<lambda>(i, u). two_site_mpo sub u (dims ! (2 * i)) (dims ! (2 * i + 1))) (enumerate 0 us))"
proof (rule esequence_all_Inr)
  fix x assume "x \<in> set (enumerate 0 us)"
  then have "fst x < length us" by (auto simp: in_set_enumerate_eq)
  then have "2 * fst x + 1 < length dims" using assms by simp
  then show "(case x of (i, u) \<Rightarrow> ebind (py_nth dims (2 * i)) (\<lambda>a. ebind (py_nth dims (2 * i + 1)) (\<lambda>b.
                    matrix_to_mpo sub u [[a, a], [b, b]]))) =
        Inr (case x of (i, u) \<Rightarrow> two_site_mpo sub u (dims ! (2 * i)) (dims ! (2 * i + 1)))"
    by (cases x) (simp add: py_nth_def matrix_to_mpo_two)
qed

lemma even_parts_seq:
  assumes "2 * length us + 1 \<le> length dims"
  shows "esequence
           (map (\<lambda>(i, u). ebind (py_nth dims (2 * i + 1)) (\<lambda>a. ebind (py_nth dims (2 * i + 2)) (\<lambda>b.
                    matrix_to_mpo sub u [[a, a], [b, b]])))
                (enumerate 0 us)) =
         Inr (map (\<lambda>(i, u). two_site_mpo sub u (dims ! (2 * i + 1)) (dims ! (2 * i + 2))) (enumerate 0 us))"
proof (rule esequence_all_Inr)
  fix x assume "x \<in> set (enumerate 0 us)"
  then have "fst x < length us" by (auto simp: in_set_enumerate_eq)
  then have "2 * fst x + 2 < length dims" using assms by simp
  then show "(case x of (i, u) \<Rightarrow> ebind (py_nth dims (2 * i + 1)) (\<lambda>a. ebind (py_nth dims (2 * i + 2)) (\<lambda>b.
                    matrix_to_mpo sub u [[a, a], [b, b]]))) =
        Inr (case x of (i, u) \<Rightarrow> two_site_mpo sub u (dims ! (2 * i + 1)) (dims ! (2 * i + 2)))"
    by (cases x) (simp add: py_nth_def matrix_to_mpo_two)
qed

lemma u_list_to_mpo_unfold:
  "u_list_to_mpo sub dims u_odd0 u_even =
     ebind (if length dims mod 2 = 1
            then ebind (py_last u_odd0) (\<lambda>l. Inr (Some l, butlast u_odd0))
            else Inr (None, u_odd0))
       (\<lambda>(last_h, u_odd).
     ebind (esequence
              (map (\<lambda>(i, u). ebind (py_nth dims (2 * i)) (\<lambda>a. ebind (py_nth dims (2 * i + 1)) (\<lambda>b.
                      matrix_to_mpo sub u [[a, a], [b, b]])))
                   (enumerate 0 u_odd)))
       (\<lambda>odd_parts.
     ebind (esequence
              (map (\<lambda>(i, u). ebind (py_nth dims (2 * i + 1)) (\<lambda>a. ebind (py_nth dims (2 * i + 2)) (\<lambda>b.
                      matrix_to_mpo sub u [[a, a], [b, b]])))
                   (enumerate 0 u_even)))
       (\<lambda>even_parts.
     ebind (py_nth dims 0)
       (\<lambda>d0.
          if length u_odd > length u_even
          then ebind (py_last dims) (\<lambda>dl.
                 Inr (mp_chain sub odd_parts,
                      mp_chain sub [mp_chain sub [mp_eye sub 1 d0, mp_chain sub even_parts],
                                    mp_eye sub 1 dl]))
          else if length u_even = length u_odd
          then (case last_h of
                  None \<Rightarrow> Inl UnboundLocalError
                | Some lh \<Rightarrow>
                    ebind (py_last dims) (\<lambda>dl. ebind (matrix_to_mpo sub lh [[dl, dl]]) (\<lambda>m.
                      Inr (mp_chain sub [mp_chain sub odd_parts, m],
                           mp_chain sub [mp_eye sub 1 d0, mp_chain sub even_parts]))))
          else Inr (mp_chain sub odd_parts,
                    mp_chain sub [mp_eye sub 1 d0, mp_chain sub even_parts])))))"
  unfolding u_list_to_mpo_def Let_def ..

lemma u_list_to_mpo_even:
  assumes "even (length dims)" "dims \<noteq> []"
    and "2 * length u_odd0 = length dims" and "2 * length u_even + 2 = length dims"
  shows "u_list_to_mpo sub dims u_odd0 u_even =
           Inr (odd_network sub dims u_odd0,
                mp_chain sub [even_network sub dims u_even, mp_eye sub 1 (last dims)])"
proof -
  have m: "length dims mod 2 \<noteq> 1" using assms(1) by presburger
  have o: "2 * length u_odd0 \<le> length dims" using assms by simp
  have e: "2 * length u_even + 1 \<le> length dims" using assms by simp
  have gt: "length u_odd0 > length u_even" using assms by simp
  have first: "(if length dims mod 2 = 1
            then ebind (py_last u_odd0) (\<lambda>l. Inr (Some l, butlast u_odd0))
            else Inr (None, u_odd0)) = Inr (None, u_odd0)"
    using m by simp
  show ?thesis
    apply (simp only: u_list_to_mpo_unfold first ebind_Inr prod.case)
    apply (simp only: odd_parts_seq [OF o] even_parts_seq [OF e] ebind_Inr)
    apply (simp add: py_nth_def py_last_def assms(2) gt odd_network_def even_network_def)
    done
qed

lemma u_list_to_mpo_odd:
  assumes "odd (length dims)"
    and "2 * length u_odd0 = length dims + 1" and "2 * length u_even + 1 = length dims"
  shows "u_list_to_mpo sub dims u_odd0 u_even =
           Inr (mp_chain sub [odd_network sub dims (butlast u_odd0),
                              one_site_mpo sub (last u_odd0) (last dims)],
                even_network sub dims u_even)"
proof -
  have m: "length dims mod 2 = 1" using assms(1) by presburger
  have ne: "u_odd0 \<noteq> []" "dims \<noteq> []" using assms by auto
  have o: "2 * length (butlast u_odd0) \<le> length dims" using assms by simp
  have e: "2 * length u_even + 1 \<le> length dims" using assms by simp
  have eq: "length (butlast u_odd0) = length u_even" using assms by simp
  have first: "(if length dims mod 2 = 1
            then ebind (py_last u_odd0) (\<lambda>l. Inr (Some l, butlast u_odd0))
            else Inr (None, u_odd0)) = Inr (Some (last u_odd0), butlast u_odd0)"
    using m ne by (simp add: py_last_def)
  show ?thesis
    apply (simp only: u_list_to_mpo_unfold first ebind_Inr prod.case)
    apply (simp only: odd_parts_seq [OF o] even_parts_seq [OF e] ebind_Inr)
    apply (simp add: py_nth_def py_last_def ne eq matrix_to_mpo_one odd_network_def
        even_network_def del: length_butlast)
    done
qed

lemma py_len_items: "py_len sub x = length (py_items sub x)"
  by (cases x) simp_all

lemma get_h_list_lengths:
  assumes "get_h_list sub hams (int N) = Inr (a, b)" and "1 \<le> N"
  shows "length (py_items sub b) + 1 = length (py_items sub a)" and "length (py_items sub a) = N"
proof -
  obtain h0 h1 where hams: "hams = (h0, h1)" by (cases hams)
  show "length (py_items sub b) + 1 = length (py_items sub a)"
    using assms unfolding hams
    by (cases h0) (auto simp: get_h_list_def py_repeat_def py_len_items split: if_splits)
  show "length (py_items sub a) = N"
    using assms unfolding hams
    by (cases h0) (auto simp: get_h_list_def py_repeat_def py_len_items split: if_splits)
qed

lemma builder_ok:
  assumes "length (py_items sub b) + 1 = length (py_items sub a)"
  shows "ebind (get_u_list sub a b tau) (\<lambda>(dims, u_odd0, u_even0). u_list_to_mpo sub dims u_odd0 u_even0) =
           Inr (odd_net sub (py_items sub a) (py_items sub b) tau,
                even_net sub (py_items sub a) (py_items sub b) tau)"
proof -
  let ?hs = "py_items sub a" and ?ha = "py_items sub b"
  have lo: "length (odd_bond_ops sub ?hs ?ha tau) = length ?hs div 2"
    by (rule block_counts(1) [OF assms])
  have le: "length (even_bond_ops sub ?ha tau) = (length ?hs - 1) div 2"
    by (rule block_counts(2) [OF assms])
  have pos: "1 \<le> length ?hs" using assms by simp
  show ?thesis
  proof (cases "odd (length ?hs)")
    case True
    have 1: "odd (length (map (py_len sub) ?hs))" using True by simp
    have 2: "2 * length (odd_bond_ops sub ?hs ?ha tau @ [last_site_op sub ?hs tau]) =
               length (map (py_len sub) ?hs) + 1"
      using True lo by (simp; presburger)
    have 3: "2 * length (even_bond_ops sub ?ha tau) + 1 = length (map (py_len sub) ?hs)"
      using True le pos by (simp; presburger)
    show ?thesis
      using True u_list_to_mpo_odd [OF 1 2 3]
      by (simp add: get_u_list_chain [OF assms] odd_net_def even_net_def Let_def)
  next
    case False
    have 1: "even (length (map (py_len sub) ?hs))" using False by simp
    have ne: "map (py_len sub) ?hs \<noteq> []" using assms by auto
    have 2: "2 * length (odd_bond_ops sub ?hs ?ha tau) = length (map (py_len sub) ?hs)"
      using False lo by simp
    have 3: "2 * length (even_bond_ops sub ?ha tau) + 2 = length (map (py_len sub) ?hs)"
      using False le pos by (simp; presburger)
    show ?thesis
      using False u_list_to_mpo_even [OF 1 ne 2 3]
      by (simp add: get_u_list_chain [OF assms] odd_net_def even_net_def Let_def)
  qed
qed

lemma trotter_two_unfold:
  "trotter_two sub hamiltonians tau num_sites =
     ebind (get_h_list sub hamiltonians num_sites) (\<lambda>(h_single, h_adjacent).
     ebind (ebind (get_u_list sub h_single h_adjacent tau)
              (\<lambda>(dims, u_odd0, u_even0). u_list_to_mpo sub dims u_odd0 u_even0))
       (\<lambda>(u_odd, u_even). Inr (mp_dot sub (mp_dot sub u_odd u_even) u_odd)))"
  by (auto simp: trotter_two_def ebind_def split: sum.splits prod.splits)

lemma trotter_two_ok:
  assumes "get_h_list sub hams (int N) = Inr (a, b)" and "1 \<le> N"
  shows "trotter_two sub hams tau (int N) = Inr (slice_two sub (py_items sub a) (py_items sub b) tau)"
  by (simp add: trotter_two_unfold assms(1) builder_ok [OF get_h_list_lengths(1) [OF assms]]
      slice_two_def)

section \<open>The slice of order four\<close>

lemma on_new_object_compress:
  "on_new_object (\<lambda>h r. compress sub h r m) v = fst (mp_compress sub (Relerr (1 / 10 ^ 20)) v)"
  by (simp add: on_new_object_def alloc_def compress_def normalize_state_keeps)

lemma trotter_two_Inr:
  assumes "trotter_two sub hams tau n = Inr U"
  obtains a b dims u_odd0 u_even0 odd even where
    "get_h_list sub hams n = Inr (a, b)"
    "get_u_list sub a b tau = Inr (dims, u_odd0, u_even0)"
    "u_list_to_mpo sub dims u_odd0 u_even0 = Inr (odd, even)"
    "U = mp_dot sub (mp_dot sub odd even) odd"
  using assms
  by (auto simp: trotter_two_def ebind_def split: sum.splits prod.splits)



text \<open>
  C7. The slice of order four is built from the increments \<open>s1 = s2 = tau / (4 - 4^(1/3))\<close>
  and \<open>s3 = tau - 4 * s1\<close>. With \<open>U1\<close> and \<open>U3\<close> the slices of order two for \<open>s1\<close> and
  \<open>s3\<close>, it is the product \<open>U1 U1 U3\<close>, compressed with \<^verbatim>\<open>relerr=1e-20\<close>, then
  multiplied by \<open>U1\<close> and by \<open>U1\<close> again.
\<close>

theorem trotter_four_composition:
  assumes "trotter_two sub hams (tau / (4 - 4 powr (1 / 3))) n = Inr U1"
    and "trotter_two sub hams (tau - 4 * (tau / (4 - 4 powr (1 / 3)))) n = Inr U3"
  shows "trotter_four sub hams tau n =
           Inr (mp_dot sub
                  (mp_dot sub
                     (fst (mp_compress sub (Relerr (1 / 10 ^ 20))
                             (mp_dot sub (mp_dot sub U1 U1) U3)))
                     U1)
                  U1)"
proof -
  from assms(1) obtain a b d1 o1 e1 x1 y1 where
    h: "get_h_list sub hams n = Inr (a, b)" and
    g1: "get_u_list sub a b (tau / (4 - 4 powr (1 / 3))) = Inr (d1, o1, e1)" and
    m1: "u_list_to_mpo sub d1 o1 e1 = Inr (x1, y1)" and
    u1: "U1 = mp_dot sub (mp_dot sub x1 y1) x1"
    by (rule trotter_two_Inr)
  from assms(2) obtain a' b' d3 o3 e3 x3 y3 where
    h': "get_h_list sub hams n = Inr (a', b')" and
    g3': "get_u_list sub a' b' (tau - 4 * (tau / (4 - 4 powr (1 / 3)))) = Inr (d3, o3, e3)" and
    m3: "u_list_to_mpo sub d3 o3 e3 = Inr (x3, y3)" and
    u3: "U3 = mp_dot sub (mp_dot sub x3 y3) x3"
    by (rule trotter_two_Inr)
  have ab: "a' = a" "b' = b" using h h' by simp_all
  have g3: "get_u_list sub a b (tau - 4 * tau / (4 - 4 powr (1 / 3))) = Inr (d3, o3, e3)"
    using g3' ab by simp
  show ?thesis
    unfolding trotter_four_def Let_def
    by (simp add: h g1 g3 m1 m3 u1 u3 on_new_object_compress)
qed

lemma scalar_get_h_list_pair:
  "get_h_list scalar_substrate (Arr (1, 2), Arr (10, 2)) (int 3) =
     Inr (PyList [Arr (1, 2), Arr (1, 2), Arr (1, 2)], PyList [Arr (10, 2), Arr (10, 2)])"
  by (simp add: get_h_list_def py_repeat_def numeral_2_eq_2 numeral_3_eq_3)

lemma scalar_slice_two_pair:
  "slice_two scalar_substrate [Arr (1, 2), Arr (1, 2), Arr (1, 2)] [Arr (10, 2), Arr (10, 2)] tau =
     (3, exp (- (23 * \<i> * complex_of_real tau)))"
  by (simp add: slice_two_def odd_net_def even_net_def odd_network_def even_network_def
      two_site_mpo_def one_site_mpo_def on_new_object_compress builder_eval Let_def
      mult_exp_exp algebra_simps)

lemma scalar_trotter_two_pair:
  "trotter_two scalar_substrate (Arr (1, 2), Arr (10, 2)) tau 3 =
     Inr (3, exp (- (23 * \<i> * complex_of_real tau)))"
  using trotter_two_ok [OF scalar_get_h_list_pair, of tau] scalar_slice_two_pair [of tau]
  by simp

theorem trotter_four_composition_witness:
  "trotter_two scalar_substrate (Arr (1, 2), Arr (10, 2)) (1 / (4 - 4 powr (1 / 3))) 3 =
     Inr (3, exp (- (23 * \<i> * complex_of_real (1 / (4 - 4 powr (1 / 3)))))) \<and>
   trotter_two scalar_substrate (Arr (1, 2), Arr (10, 2)) (1 - 4 * (1 / (4 - 4 powr (1 / 3)))) 3 =
     Inr (3, exp (- (23 * \<i> * complex_of_real (1 - 4 * (1 / (4 - 4 powr (1 / 3))))))) \<and>
   trotter_four scalar_substrate (Arr (1, 2), Arr (10, 2)) 1 3 = Inr (3, exp (- (23 * \<i>)))"
proof -
  let ?s1 = "1 / (4 - 4 powr (1 / 3)) :: real"
  have e: "exp (- (23 * \<i> * complex_of_real ?s1)) * exp (- (23 * \<i> * complex_of_real ?s1)) *
           exp (- (23 * \<i> * complex_of_real (1 - 4 * ?s1))) *
           exp (- (23 * \<i> * complex_of_real ?s1)) * exp (- (23 * \<i> * complex_of_real ?s1)) =
           exp (- (23 * \<i>))"
    unfolding mult_exp_exp by (rule arg_cong [where f = exp]) (simp add: algebra_simps)
  show ?thesis
    using trotter_four_composition [OF scalar_trotter_two_pair scalar_trotter_two_pair, of 1] e
    by (simp add: scalar_fields scalar_trotter_two_pair del: mult_exp_exp)
qed

section \<open>A valid call of the evolution driver\<close>






















section \<open>The conversion of times to steps\<close>



section \<open>Configuration errors\<close>













section \<open>The state in the loop is not normalized\<close>

lemma loop_body_state:
  "cur_state (loop_body sub u ud ts tau method compr i v) =
     fst (mp_compress sub (Kwargs compr)
            (if method = ''mpo'' then mp_dot sub (mp_dot sub u (cur_state v)) ud
             else mp_dot sub u (cur_state v)))"
  by (simp add: loop_body_def Let_def split: prod.splits)

text \<open>
  C1. \<^verbatim>\<open>_normalize\<close> builds the normalized array as a new object and drops it; the object
  it was called on is as before. So the state that a pass of the loop compresses is the
  product with the propagator as it is, not divided by its trace or norm. For a state of
  three sites with trace (and norm) 2 and a propagator that is the identity, the state
  recorded after one step still has trace (and norm) 2.
\<close>

theorem loop_state_not_normalized:
  "cur_state (loop_body sub u ud ts tau method compr i v) =
     fst (mp_compress sub (Kwargs compr)
            (if method = ''mpo'' then mp_dot sub (mp_dot sub u (cur_state v)) ud
             else mp_dot sub u (cur_state v))) \<and>
   normalize_state scalar_substrate [(3, 2)] 0 ''mpo'' = [(3, 2), (3, 1)] \<and>
   time_evolution scalar_substrate (3, 2) (3, 1) (Steps [1]) 1 ''mpo'' () =
     Inr ([1], [(3, 2)], [1], [1]) \<and>
   mp_trace scalar_substrate (3, 2) = 2 \<and>
   normalize_state scalar_substrate [(3, 2)] 0 ''pmps'' = [(3, 2), (3, 1)] \<and>
   time_evolution scalar_substrate (3, 2) (3, 1) (Steps [1]) 1 ''pmps'' () =
     Inr ([1], [(3, 2)], [1], [1]) \<and>
   mp_norm scalar_substrate (3, 2) = 2"
proof -
  have "normalize_state scalar_substrate [(3, 2)] 0 ''mpo'' = [(3, 2), (3, 1)]"
    and "normalize_state scalar_substrate [(3, 2)] 0 ''pmps'' = [(3, 2), (3, 1)]"
    by (simp_all add: normalize_state_def alloc_def scalar_fields)
  moreover have "time_evolution scalar_substrate (3, 2) (3, 1) (Steps [1]) 1 ''mpo'' () =
      Inr ([1], [(3, 2)], [1], [1])"
    and "time_evolution scalar_substrate (3, 2) (3, 1) (Steps [1]) 1 ''pmps'' () =
      Inr ([1], [(3, 2)], [1], [1])"
    by (simp_all add: time_evolution_def py_nth_def py_last_def Let_def run_loop_Suc
        scalar_loop_body init_vars_def scalar_fields)
  moreover have "mp_trace scalar_substrate (3, 2) = 2" and "mp_norm scalar_substrate (3, 2) = 2"
    by (simp_all add: scalar_fields)
  ultimately show ?thesis
    by (simp add: loop_body_state)
qed

section \<open>Zero Hamiltonians give the identity network\<close>

lemma filter_even_upt: "filter even [0..<n] = map (\<lambda>i. 2 * i) [0..<(n + 1) div 2]"
proof (induction n)
  case 0
  then show ?case by simp
next
  case (Suc n)
  show ?case
  proof (cases "even n")
    case True
    then have "(Suc n + 1) div 2 = Suc ((n + 1) div 2)" "2 * ((n + 1) div 2) = n"
      by presburger+
    then show ?thesis using Suc True by simp
  next
    case False
    then have "(Suc n + 1) div 2 = (n + 1) div 2" by presburger
    then show ?thesis using Suc False by simp
  qed
qed

lemma every_other_nth: "every_other xs = map (\<lambda>i. xs ! (2 * i)) [0..<(length xs + 1) div 2]"
proof (induction xs rule: every_other.induct)
  case 1
  then show ?case by simp
next
  case (2 x)
  then show ?case by simp
next
  case (3 x y zs)
  have "[0..<Suc ((length zs + 1) div 2)] = 0 # map Suc [0..<(length zs + 1) div 2]"
    by (simp add: upt_conv_Cons map_Suc_upt del: upt_Suc)
  then show ?case using 3 by (simp add: comp_def del: upt_Suc)
qed

lemma every_other_from1_nth:
  "every_other_from1 xs = map (\<lambda>i. xs ! (2 * i + 1)) [0..<length xs div 2]"
proof (cases xs)
  case Nil
  then show ?thesis by (simp add: every_other_from1_def)
next
  case (Cons x ys)
  then show ?thesis
    by (simp add: every_other_from1_def every_other_nth)
qed

lemma pairs_concat:
  "2 * k \<le> length ds \<Longrightarrow>
   concat (map (\<lambda>i. [f (ds ! (2 * i)), f (ds ! (2 * i + 1))]) [0..<k]) = map f (take (2 * k) ds)"
proof (induction k)
  case 0
  then show ?case by simp
next
  case (Suc k)
  then have "take (2 * Suc k) ds = take (2 * k) ds @ [ds ! (2 * k), ds ! (2 * k + 1)]"
    by (simp add: take_Suc_conv_app_nth)
  then show ?case using Suc by simp
qed

lemma map_enumerate:
  "map (\<lambda>(i, x). f i x) (enumerate 0 xs) = map (\<lambda>i. f i (xs ! i)) [0..<length xs]"
  by (rule nth_equalityI) (simp_all add: nth_enumerate_eq)

lemma map_enumerate_upt:
  "map (\<lambda>(i, x). f i x) (enumerate 0 (map g [0..<k])) = map (\<lambda>i. f i (g i)) [0..<k]"
  by (rule nth_equalityI) (simp_all add: nth_enumerate_eq)

lemma zero_sites_simps:
  "length (zero_sites zeros ds) = length ds"
  "i < length ds \<Longrightarrow> zero_sites zeros ds ! i = Arr (zeros (ds ! i))"
  "ds \<noteq> [] \<Longrightarrow> last (zero_sites zeros ds) = Arr (zeros (last ds))"
  by (simp_all add: zero_sites_def last_map)

lemma zero_bonds_simps:
  "length (zero_bonds zeros ds) = length ds - 1"
  "Suc i < length ds \<Longrightarrow> zero_bonds zeros ds ! i = Arr (zeros (ds ! i * ds ! Suc i))"
proof -
  show "length (zero_bonds zeros ds) = length ds - 1"
    by (simp add: zero_bonds_def)
  assume "Suc i < length ds"
  then have "i < length ds - 1" by simp
  then show "zero_bonds zeros ds ! i = Arr (zeros (ds ! i * ds ! Suc i))"
    unfolding zero_bonds_def by (simp del: One_nat_def)
qed

lemma zero_dims:
  assumes "exact_on_zero sub zeros ds"
  shows "map (py_len sub) (zero_sites zeros ds) = ds"
  using assms by (simp add: exact_on_zero_def zero_sites_def comp_def map_idI)

lemma zero_h_2sites:
  assumes ex: "exact_on_zero sub zeros ds"
  shows "h_2sites sub (zero_sites zeros ds) =
           map (\<lambda>i. zeros (ds ! (2 * i) * ds ! (2 * i + 1))) [0..<length ds div 2]"
proof -
  have len: "(length ds - 1 + 1) div 2 = length ds div 2"
    by (cases ds) simp_all
  have "h_2sites sub (zero_sites zeros ds) =
      map (\<lambda>i. np_add sub
                 (np_kron sub (asarray sub (zero_sites zeros ds ! (2 * i)))
                    (np_identity sub (py_len sub (zero_sites zeros ds ! (2 * i + 1)))))
                 (np_kron sub (np_identity sub (py_len sub (zero_sites zeros ds ! (2 * i))))
                    (asarray sub (zero_sites zeros ds ! (2 * i + 1)))))
          [0..<length ds div 2]"
    unfolding h_2sites_def filter_even_upt zero_sites_simps(1) len
    by (simp add: comp_def)
  also have "\<dots> = map (\<lambda>i. zeros (ds ! (2 * i) * ds ! (2 * i + 1))) [0..<length ds div 2]"
  proof (rule map_cong [OF refl])
    fix i assume "i \<in> set [0..<length ds div 2]"
    then have i: "2 * i < length ds" "2 * i + 1 < length ds" by auto
    then have m: "ds ! (2 * i) \<in> set ds" "ds ! (2 * i + 1) \<in> set ds" by simp_all
    have l: "length (np_rows sub (zeros (ds ! (2 * i)))) = ds ! (2 * i)"
      "length (np_rows sub (zeros (ds ! (2 * i + 1)))) = ds ! (2 * i + 1)"
      using ex m by (simp_all add: exact_on_zero_def)
    have k: "np_kron sub (zeros (ds ! (2 * i))) (np_identity sub (ds ! (2 * i + 1))) =
               zeros (ds ! (2 * i) * ds ! (2 * i + 1))"
      "np_kron sub (np_identity sub (ds ! (2 * i))) (zeros (ds ! (2 * i + 1))) =
               zeros (ds ! (2 * i) * ds ! (2 * i + 1))"
      using ex m unfolding exact_on_zero_def by blast+
    have a: "np_add sub (zeros (ds ! (2 * i) * ds ! (2 * i + 1))) (zeros (ds ! (2 * i) * ds ! (2 * i + 1))) =
               zeros (ds ! (2 * i) * ds ! (2 * i + 1))"
      using ex unfolding exact_on_zero_def by blast
    show "np_add sub
                 (np_kron sub (asarray sub (zero_sites zeros ds ! (2 * i)))
                    (np_identity sub (py_len sub (zero_sites zeros ds ! (2 * i + 1)))))
                 (np_kron sub (np_identity sub (py_len sub (zero_sites zeros ds ! (2 * i))))
                    (asarray sub (zero_sites zeros ds ! (2 * i + 1)))) =
          zeros (ds ! (2 * i) * ds ! (2 * i + 1))"
      using i by (simp add: zero_sites_simps(2) l k a del: One_nat_def)
  qed
  finally show ?thesis .
qed

lemma zero_exp:
  assumes "exact_on_zero sub zeros ds"
  shows "expm sub (np_scale sub c (zeros d)) = np_identity sub d"
    and "expm sub (np_scale sub c (np_add sub (zeros d) (zeros d))) = np_identity sub d"
  using assms by (simp_all add: exact_on_zero_def)

lemma zero_odd_bond_ops:
  assumes ex: "exact_on_zero sub zeros ds" and ne: "ds \<noteq> []"
  shows "odd_bond_ops sub (zero_sites zeros ds) (zero_bonds zeros ds) tau =
           map (\<lambda>i. np_identity sub (ds ! (2 * i) * ds ! (2 * i + 1))) [0..<length ds div 2]"
proof -
  have len: "(length ds - 1 + 1) div 2 = length ds div 2"
    using ne by (cases ds) simp_all
  have eo: "every_other (zero_bonds zeros ds) =
              map (\<lambda>i. zero_bonds zeros ds ! (2 * i)) [0..<length ds div 2]"
    using every_other_nth [of "zero_bonds zeros ds"] unfolding zero_bonds_simps(1) len .
  have "odd_bond_ops sub (zero_sites zeros ds) (zero_bonds zeros ds) tau =
      map (\<lambda>i. expm sub (np_scale sub (- \<i> * complex_of_real tau / 2)
                   (np_add sub
                      (asarray sub (map (\<lambda>i. zero_bonds zeros ds ! (2 * i)) [0..<length ds div 2] ! i))
                      (map (\<lambda>i. zeros (ds ! (2 * i) * ds ! (2 * i + 1))) [0..<length ds div 2] ! i))))
          [0..<length ds div 2]"
    unfolding odd_bond_ops_def map_enumerate zero_h_2sites [OF ex] eo by simp
  also have "\<dots> = map (\<lambda>i. np_identity sub (ds ! (2 * i) * ds ! (2 * i + 1))) [0..<length ds div 2]"
  proof (rule map_cong [OF refl])
    fix i assume "i \<in> set [0..<length ds div 2]"
    then have i: "i < length ds div 2" "Suc (2 * i) < length ds" by auto
    show "expm sub (np_scale sub (- \<i> * complex_of_real tau / 2)
                   (np_add sub
                      (asarray sub (map (\<lambda>i. zero_bonds zeros ds ! (2 * i)) [0..<length ds div 2] ! i))
                      (map (\<lambda>i. zeros (ds ! (2 * i) * ds ! (2 * i + 1))) [0..<length ds div 2] ! i))) =
          np_identity sub (ds ! (2 * i) * ds ! (2 * i + 1))"
      using i by (simp add: zero_bonds_simps(2) zero_exp(2) [OF ex])
  qed
  finally show ?thesis .
qed

lemma zero_even_bond_ops:
  assumes ex: "exact_on_zero sub zeros ds"
  shows "even_bond_ops sub (zero_bonds zeros ds) tau =
           map (\<lambda>i. np_identity sub (ds ! (2 * i + 1) * ds ! (2 * i + 2))) [0..<(length ds - 1) div 2]"
proof -
  have "even_bond_ops sub (zero_bonds zeros ds) tau =
      map (\<lambda>i. expm sub (np_scale sub (- \<i> * complex_of_real tau)
                   (asarray sub (zero_bonds zeros ds ! (2 * i + 1)))))
          [0..<(length ds - 1) div 2]"
    by (simp add: even_bond_ops_def every_other_from1_nth zero_bonds_simps(1) comp_def)
  also have "\<dots> = map (\<lambda>i. np_identity sub (ds ! (2 * i + 1) * ds ! (2 * i + 2))) [0..<(length ds - 1) div 2]"
  proof (rule map_cong [OF refl])
    fix i assume "i \<in> set [0..<(length ds - 1) div 2]"
    then have i: "Suc (2 * i + 1) < length ds" by auto
    show "expm sub (np_scale sub (- \<i> * complex_of_real tau)
                   (asarray sub (zero_bonds zeros ds ! (2 * i + 1)))) =
          np_identity sub (ds ! (2 * i + 1) * ds ! (2 * i + 2))"
      using zero_bonds_simps(2) [OF i, of zeros] by (simp add: zero_exp(1) [OF ex])
  qed
  finally show ?thesis .
qed

lemma zero_last_site_op:
  assumes ex: "exact_on_zero sub zeros ds" and ne: "ds \<noteq> []"
  shows "last_site_op sub (zero_sites zeros ds) tau = np_identity sub (last ds)"
  using ne by (simp add: last_site_op_def zero_sites_simps(3) zero_exp(1) [OF ex])

lemma zero_two_site_mpo:
  assumes "exact_on_zero sub zeros ds" and "a \<in> set ds" and "b \<in> set ds"
  shows "two_site_mpo sub (np_identity sub (a * b)) a b = mp_chain sub [mp_eye sub 1 a, mp_eye sub 1 b]"
  using assms unfolding two_site_mpo_def on_new_object_compress exact_on_zero_def by blast

lemma zero_one_site_mpo:
  assumes "exact_on_zero sub zeros ds" and "d \<in> set ds"
  shows "one_site_mpo sub (np_identity sub d) d = mp_eye sub 1 d"
  using assms unfolding one_site_mpo_def on_new_object_compress exact_on_zero_def by blast

lemma chain_flatten:
  assumes "exact_on_zero sub zeros ds" and "xss \<noteq> []" and "\<forall>xs\<in>set xss. xs \<noteq> []"
  shows "mp_chain sub (map (mp_chain sub) xss) = mp_chain sub (concat xss)"
  using assms unfolding exact_on_zero_def by blast

lemma chain_single:
  assumes "exact_on_zero sub zeros ds"
  shows "mp_chain sub [x] = x"
  using assms unfolding exact_on_zero_def by blast

lemma chain_pairs:
  assumes ex: "exact_on_zero sub zeros ds" and k: "1 \<le> k"
  shows "mp_chain sub (map (\<lambda>i. mp_chain sub [f i, g i]) [0..<k]) =
           mp_chain sub (concat (map (\<lambda>i. [f i, g i]) [0..<k]))"
proof -
  have "map (\<lambda>i. mp_chain sub [f i, g i]) [0..<k] = map (mp_chain sub) (map (\<lambda>i. [f i, g i]) [0..<k])"
    by (simp add: comp_def)
  moreover have "map (\<lambda>i. [f i, g i]) [0..<k] \<noteq> []" using k by simp
  moreover have "\<forall>xs\<in>set (map (\<lambda>i. [f i, g i]) [0..<k]). xs \<noteq> []" by auto
  ultimately show ?thesis
    using chain_flatten [OF ex] by presburger
qed

lemma id_net_append:
  assumes ex: "exact_on_zero sub zeros ds" and "xs \<noteq> []" and "ys \<noteq> []"
  shows "mp_chain sub [id_net sub xs, id_net sub ys] = id_net sub (xs @ ys)"
proof -
  have "mp_chain sub [id_net sub xs, id_net sub ys] =
          mp_chain sub (map (mp_chain sub) [map (mp_eye sub 1) xs, map (mp_eye sub 1) ys])"
    by (simp add: id_net_def)
  also have "\<dots> = mp_chain sub (concat [map (mp_eye sub 1) xs, map (mp_eye sub 1) ys])"
    using assms(2,3) by (intro chain_flatten [OF ex]) simp_all
  finally show ?thesis by (simp add: id_net_def)
qed

lemma id_net_single:
  assumes ex: "exact_on_zero sub zeros ds"
  shows "id_net sub [d] = mp_eye sub 1 d"
  by (simp add: id_net_def chain_single [OF ex])

lemma zero_odd_network:
  assumes ex: "exact_on_zero sub zeros ds" and k: "1 \<le> k" "2 * k \<le> length ds"
  shows "odd_network sub ds (map (\<lambda>i. np_identity sub (ds ! (2 * i) * ds ! (2 * i + 1))) [0..<k]) =
           id_net sub (take (2 * k) ds)"
proof -
  have "odd_network sub ds (map (\<lambda>i. np_identity sub (ds ! (2 * i) * ds ! (2 * i + 1))) [0..<k]) =
          mp_chain sub (map (\<lambda>i. two_site_mpo sub (np_identity sub (ds ! (2 * i) * ds ! (2 * i + 1)))
                                     (ds ! (2 * i)) (ds ! (2 * i + 1))) [0..<k])"
    unfolding odd_network_def map_enumerate_upt ..
  also have "\<dots> = mp_chain sub (map (\<lambda>i. mp_chain sub [mp_eye sub 1 (ds ! (2 * i)),
                                                        mp_eye sub 1 (ds ! (2 * i + 1))]) [0..<k])"
  proof (rule arg_cong [where f = "mp_chain sub"], rule map_cong [OF refl])
    fix i assume "i \<in> set [0..<k]"
    then have "2 * i < length ds" "2 * i + 1 < length ds" using k by auto
    then have "ds ! (2 * i) \<in> set ds" "ds ! (2 * i + 1) \<in> set ds" by simp_all
    then show "two_site_mpo sub (np_identity sub (ds ! (2 * i) * ds ! (2 * i + 1)))
                 (ds ! (2 * i)) (ds ! (2 * i + 1)) =
               mp_chain sub [mp_eye sub 1 (ds ! (2 * i)), mp_eye sub 1 (ds ! (2 * i + 1))]"
      by (rule zero_two_site_mpo [OF ex])
  qed
  also have "\<dots> = mp_chain sub (concat (map (\<lambda>i. [mp_eye sub 1 (ds ! (2 * i)),
                                                    mp_eye sub 1 (ds ! (2 * i + 1))]) [0..<k]))"
    by (rule chain_pairs [OF ex k(1)])
  also have "\<dots> = id_net sub (take (2 * k) ds)"
    unfolding id_net_def using pairs_concat [OF k(2), of "mp_eye sub 1"] by simp
  finally show ?thesis .
qed

lemma zero_even_network:
  assumes ex: "exact_on_zero sub zeros ds" and k: "1 \<le> k" "2 * k + 1 \<le> length ds"
  shows "even_network sub ds (map (\<lambda>i. np_identity sub (ds ! (2 * i + 1) * ds ! (2 * i + 2))) [0..<k]) =
           id_net sub (take (2 * k + 1) ds)"
proof -
  obtain d0 rest where ds: "ds = d0 # rest" using k(2) by (cases ds) auto
  have r: "2 * k \<le> length rest" using k(2) ds by simp
  have "mp_chain sub (map (\<lambda>(i, u). two_site_mpo sub u (ds ! (2 * i + 1)) (ds ! (2 * i + 2)))
            (enumerate 0 (map (\<lambda>i. np_identity sub (ds ! (2 * i + 1) * ds ! (2 * i + 2))) [0..<k]))) =
          mp_chain sub (map (\<lambda>i. two_site_mpo sub (np_identity sub (ds ! (2 * i + 1) * ds ! (2 * i + 2)))
                                     (ds ! (2 * i + 1)) (ds ! (2 * i + 2))) [0..<k])"
    unfolding map_enumerate_upt ..
  also have "\<dots> = mp_chain sub (map (\<lambda>i. mp_chain sub [mp_eye sub 1 (rest ! (2 * i)),
                                                        mp_eye sub 1 (rest ! (2 * i + 1))]) [0..<k])"
  proof (rule arg_cong [where f = "mp_chain sub"], rule map_cong [OF refl])
    fix i assume "i \<in> set [0..<k]"
    then have i: "2 * i + 1 < length ds" "2 * i + 2 < length ds" using k by auto
    then have "ds ! (2 * i + 1) \<in> set ds" "ds ! (2 * i + 2) \<in> set ds" by simp_all
    from zero_two_site_mpo [OF ex this]
    show "two_site_mpo sub (np_identity sub (ds ! (2 * i + 1) * ds ! (2 * i + 2)))
                 (ds ! (2 * i + 1)) (ds ! (2 * i + 2)) =
               mp_chain sub [mp_eye sub 1 (rest ! (2 * i)), mp_eye sub 1 (rest ! (2 * i + 1))]"
      by (simp add: ds)
  qed
  also have "\<dots> = mp_chain sub (concat (map (\<lambda>i. [mp_eye sub 1 (rest ! (2 * i)),
                                                    mp_eye sub 1 (rest ! (2 * i + 1))]) [0..<k]))"
    by (rule chain_pairs [OF ex k(1)])
  also have "\<dots> = id_net sub (take (2 * k) rest)"
    unfolding id_net_def using pairs_concat [OF r, of "mp_eye sub 1"] by simp
  finally have inner: "mp_chain sub (map (\<lambda>(i, u). two_site_mpo sub u (ds ! (2 * i + 1)) (ds ! (2 * i + 2)))
            (enumerate 0 (map (\<lambda>i. np_identity sub (ds ! (2 * i + 1) * ds ! (2 * i + 2))) [0..<k]))) =
          id_net sub (take (2 * k) rest)" .
  have ne: "take (2 * k) rest \<noteq> []" using k(1) r by (cases rest) auto
  have "even_network sub ds (map (\<lambda>i. np_identity sub (ds ! (2 * i + 1) * ds ! (2 * i + 2))) [0..<k]) =
          mp_chain sub [id_net sub [d0], id_net sub (take (2 * k) rest)]"
    unfolding even_network_def inner by (simp add: ds id_net_single [OF ex])
  also have "\<dots> = id_net sub ([d0] @ take (2 * k) rest)"
    using ne by (intro id_net_append [OF ex]) simp_all
  finally show ?thesis by (simp add: ds)
qed

lemma id_net_snoc:
  assumes ex: "exact_on_zero sub zeros ds" and "2 \<le> length xs"
  shows "mp_chain sub [id_net sub (butlast xs), mp_eye sub 1 (last xs)] = id_net sub xs"
proof -
  have ne: "xs \<noteq> []" "butlast xs \<noteq> []" using assms(2) by (auto simp: butlast_conv_take)
  have "mp_chain sub [id_net sub (butlast xs), mp_eye sub 1 (last xs)] =
          mp_chain sub [id_net sub (butlast xs), id_net sub [last xs]]"
    by (simp add: id_net_single [OF ex])
  also have "\<dots> = id_net sub (butlast xs @ [last xs])"
    using ne by (intro id_net_append [OF ex]) simp_all
  finally show ?thesis using ne by simp
qed

lemma zero_odd_net:
  assumes ex: "exact_on_zero sub zeros ds" and n: "3 \<le> length ds"
  shows "odd_net sub (zero_sites zeros ds) (zero_bonds zeros ds) tau = id_net sub ds"
proof -
  have ne: "ds \<noteq> []" using n by auto
  have k: "1 \<le> length ds div 2" "2 * (length ds div 2) \<le> length ds" using n by auto
  have n2: "2 \<le> length ds" using n by simp
  note on = zero_odd_network [OF ex k]
  show ?thesis
  proof (cases "odd (length ds)")
    case True
    then have t: "take (2 * (length ds div 2)) ds = butlast ds"
      by (simp add: butlast_conv_take)
    have l: "last ds \<in> set ds" using ne by simp
    show ?thesis
      unfolding odd_net_def Let_def zero_dims [OF ex] zero_sites_simps(1)
        zero_odd_bond_ops [OF ex ne] zero_last_site_op [OF ex ne] on t
        zero_one_site_mpo [OF ex l] id_net_snoc [OF ex n2]
      using True by simp
  next
    case False
    then have t: "take (2 * (length ds div 2)) ds = ds" by simp
    show ?thesis
      unfolding odd_net_def Let_def zero_dims [OF ex] zero_sites_simps(1)
        zero_odd_bond_ops [OF ex ne] on t
      using False by simp
  qed
qed

lemma zero_even_net:
  assumes ex: "exact_on_zero sub zeros ds" and n: "3 \<le> length ds"
  shows "even_net sub (zero_sites zeros ds) (zero_bonds zeros ds) tau = id_net sub ds"
proof -
  have ne: "ds \<noteq> []" using n by auto
  have k: "1 \<le> (length ds - 1) div 2" "2 * ((length ds - 1) div 2) + 1 \<le> length ds" using n by auto
  note en = zero_even_network [OF ex k]
  show ?thesis
  proof (cases "odd (length ds)")
    case True
    then have "2 * ((length ds - 1) div 2) + 1 = length ds" using n by presburger
    then have t: "take (2 * ((length ds - 1) div 2) + 1) ds = ds" by simp
    show ?thesis
      unfolding even_net_def Let_def zero_dims [OF ex] zero_sites_simps(1)
        zero_even_bond_ops [OF ex] en t
      using True by simp
  next
    case False
    then have "2 * ((length ds - 1) div 2) + 1 = length ds - 1" using n by presburger
    then have t: "take (2 * ((length ds - 1) div 2) + 1) ds = butlast ds"
      by (simp add: butlast_conv_take)
    have n2: "2 \<le> length ds" using n by simp
    show ?thesis
      unfolding even_net_def Let_def zero_dims [OF ex] zero_sites_simps(1)
        zero_even_bond_ops [OF ex] en t id_net_snoc [OF ex n2]
      using False by simp
  qed
qed

lemma zero_slice_two:
  assumes ex: "exact_on_zero sub zeros ds" and n: "3 \<le> length ds"
  shows "slice_two sub (zero_sites zeros ds) (zero_bonds zeros ds) tau = id_net sub ds"
proof -
  have d: "mp_dot sub (id_net sub ds) (id_net sub ds) = id_net sub ds"
    using ex unfolding exact_on_zero_def by blast
  show ?thesis
    by (simp add: slice_two_def zero_odd_net [OF ex n] zero_even_net [OF ex n] d)
qed

text \<open>
  C8. Take a chain of \<open>N \<ge> 3\<close> sites of the dimensions \<open>ds\<close>, any \<open>tau\<close>, and for every
  site and every bond the zero matrix as its Hamiltonian, given as explicit lists or, when
  all sites have the same dimension, as one pair. If the libraries compute exactly on zero
  matrices and identities (\<open>exact_on_zero\<close>), the slice of order two that \<^verbatim>\<open>_trotter_two\<close>
  returns is the identity network on every site.
\<close>

theorem zero_hamiltonians_identity_slice:
  assumes "exact_on_zero sub zeros ds" and "3 \<le> length ds"
  shows "trotter_two sub (PyList (zero_sites zeros ds), PyList (zero_bonds zeros ds)) tau
             (int (length ds)) = Inr (id_net sub ds) \<and>
         ((\<forall>d\<in>set ds. d = d0) \<longrightarrow>
            trotter_two sub (Arr (zeros d0), Arr (zeros (d0 * d0))) tau (int (length ds)) =
              Inr (id_net sub ds))"
proof (intro conjI impI)
  have n1: "1 \<le> length ds" using assms(2) by simp
  have g: "get_h_list sub (PyList (zero_sites zeros ds), PyList (zero_bonds zeros ds)) (int (length ds)) =
             Inr (PyList (zero_sites zeros ds), PyList (zero_bonds zeros ds))"
    using n1 by (simp add: get_h_list_def zero_sites_simps(1) zero_bonds_simps(1) of_nat_diff)
  show "trotter_two sub (PyList (zero_sites zeros ds), PyList (zero_bonds zeros ds)) tau
             (int (length ds)) = Inr (id_net sub ds)"
    using trotter_two_ok [OF g n1, of tau] zero_slice_two [OF assms, of tau] by simp
  assume u: "\<forall>d\<in>set ds. d = d0"
  then have ds: "ds = replicate (length ds) d0"
    by (simp add: replicate_length_same)
  have s: "zero_sites zeros ds = replicate (length ds) (Arr (zeros d0))"
    unfolding zero_sites_def by (subst ds) (simp only: map_replicate length_replicate)
  have nth: "ds ! i = d0" if "i < length ds" for i
    using u that by simp
  have b: "zero_bonds zeros ds = replicate (length ds - 1) (Arr (zeros (d0 * d0)))"
    unfolding zero_bonds_def
    by (intro replicate_eqI) (auto simp: nth simp del: One_nat_def)
  have g2: "get_h_list sub (Arr (zeros d0), Arr (zeros (d0 * d0))) (int (length ds)) =
             Inr (PyList (zero_sites zeros ds), PyList (zero_bonds zeros ds))"
    using n1 by (simp add: get_h_list_def py_repeat_def s b nat_diff_distrib')
  show "trotter_two sub (Arr (zeros d0), Arr (zeros (d0 * d0))) tau (int (length ds)) =
              Inr (id_net sub ds)"
    using trotter_two_ok [OF g2 n1, of tau] zero_slice_two [OF assms, of tau] by simp
qed

lemma scalar_chain_flatten:
  "mp_chain scalar_substrate (map (mp_chain scalar_substrate) xss) =
     mp_chain scalar_substrate (concat xss)"
  by (induction xss) (simp_all add: scalar_fields)

lemma scalar_exact_on_zero: "exact_on_zero scalar_substrate (\<lambda>d. (0, 2)) [1, 1, 1]"
  unfolding exact_on_zero_def
  by (intro conjI allI impI ballI scalar_chain_flatten) (simp_all add: scalar_fields id_net_def)

theorem zero_hamiltonians_identity_slice_witness:
  "exact_on_zero scalar_substrate (\<lambda>d. (0, 2)) [1, 1, 1] \<and>
   trotter_two scalar_substrate
       (PyList [Arr (0, 2), Arr (0, 2), Arr (0, 2)], PyList [Arr (0, 2), Arr (0, 2)]) 1 3 =
     Inr (3, 1) \<and>
   trotter_two scalar_substrate (Arr (0, 2), Arr (0, 2)) 1 3 = Inr (3, 1) \<and>
   id_net scalar_substrate [1, 1, 1] = (3, 1)"
proof -
  have l: "3 \<le> length [1, 1, 1 :: nat]" by simp
  have z: "zero_sites (\<lambda>d. (0 :: complex, 2 :: nat)) [1, 1, 1] = [Arr (0, 2), Arr (0, 2), Arr (0, 2)]"
    "zero_bonds (\<lambda>d. (0 :: complex, 2 :: nat)) [1, 1, 1] = [Arr (0, 2), Arr (0, 2)]"
    by (simp_all add: zero_sites_def zero_bonds_def upt_conv_Cons)
  have i: "id_net scalar_substrate [1, 1, 1] = (3, 1)"
    by (simp add: id_net_def scalar_fields)
  show ?thesis
    using zero_hamiltonians_identity_slice [OF scalar_exact_on_zero l, of 1 1] scalar_exact_on_zero
    unfolding z i by simp
qed

end
